theory Spec2Isabelle
  imports Complex_Main "HOL-Library.Word"
begin

unbundle bit_operations_syntax

section \<open>Types (include/tb/types.hpp)\<close>

text \<open>
  \<^verbatim>\<open>IPv4\<close> and \<^verbatim>\<open>BucketIndex\<close> are \<^verbatim>\<open>std::uint32_t\<close>; \<^verbatim>\<open>std::size_t\<close> is taken as the
  64-bit unsigned type of the LP64 platforms the project builds on. Arithmetic on
  words wraps around, as unsigned arithmetic does in C++. A \<^verbatim>\<open>std::vector\<close> is a list;
  where a statement depends on it, the fact that a vector holds fewer than \<open>2 ^ 64\<close>
  elements is a hypothesis \<open>length xs < 2 ^ 64\<close>.
\<close>

type_synonym IPv4 = "32 word"
type_synonym BucketIndex = "32 word"
type_synonym size_t = "64 word"

text \<open>
  \<^verbatim>\<open>struct Config { uint32_t a; uint32_t b; unsigned int k; }\<close>. The fields carry the
  prefix \<open>cfg_\<close>, since a record field is a constant of the theory.
\<close>

record Config =
  cfg_a :: "32 word"
  cfg_b :: "32 word"
  cfg_k :: "32 word"

text \<open>
  \<^verbatim>\<open>Config::bucket_count\<close>:
  \<^verbatim>\<open>if (k >= 32) return size_t(1ULL << 32); return size_t(1ULL << k);\<close>
  (named \<open>cfg_bucket_count\<close>; \<open>bucket_count\<close> is the field of \<^verbatim>\<open>StatsResult\<close>).
\<close>

definition cfg_bucket_count :: "Config \<Rightarrow> size_t" where
  "cfg_bucket_count cfg =
     (if 32 \<le> cfg_k cfg then push_bit 32 1 else push_bit (unat (cfg_k cfg)) 1)"

text \<open>
  \<^verbatim>\<open>struct StatsResult\<close>. The field \<^verbatim>\<open>uniformity\<close> is named \<open>uniformity_pct\<close>:
  \<open>uniformity\<close> is a constant of the library's uniform spaces. A \<^verbatim>\<open>double\<close> is
  modelled by the real number it denotes (see the section on statistics).
\<close>

record StatsResult =
  sample_count :: size_t
  bucket_count :: size_t
  mean :: real
  stddev :: real
  chi2 :: real
  uniformity_pct :: real

text \<open>The two configurations used in the examples: the defaults of \<^verbatim>\<open>Config\<close> and the
  identity-like mapping of the test suite.\<close>

definition default_cfg :: Config where
  "default_cfg = \<lparr>cfg_a = 0x9E3779B1, cfg_b = 0x85EBCA77, cfg_k = 12\<rparr>"

definition identity_cfg :: Config where
  "identity_cfg = \<lparr>cfg_a = 1, cfg_b = 0, cfg_k = 4\<rparr>"

section \<open>Bucket engine (src/bucket_engine.cpp)\<close>

text \<open>
  \<^verbatim>\<open>bucket_from_y(y, k)\<close>: the shift is done on the value widened to 64 bits and the
  result is cast back to 32 bits.
\<close>

definition bucket_from_y :: "32 word \<Rightarrow> 32 word \<Rightarrow> BucketIndex" where
  "bucket_from_y y k =
     (if k = 0 then 0
      else if 32 \<le> k then y
      else let s = 32 - k
           in ucast (drop_bit (unat s) (ucast y :: 64 word)))"

text \<open>
  \<^verbatim>\<open>BucketEngine::bucket_index(ip)\<close>: the multiply-add is evaluated on 64-bit values
  and truncated to 32 bits by the \<^verbatim>\<open>static_cast\<close>.
\<close>

definition bucket_index :: "Config \<Rightarrow> IPv4 \<Rightarrow> BucketIndex" where
  "bucket_index cfg ip =
     (let y = (ucast ((ucast (cfg_a cfg) :: 64 word) * ucast ip + ucast (cfg_b cfg)) :: 32 word)
      in bucket_from_y y (cfg_k cfg))"

text \<open>\<^verbatim>\<open>BucketEngine::bucketize\<close>: \<^verbatim>\<open>bucket_index\<close> on each address, in order.\<close>

definition bucketize :: "Config \<Rightarrow> IPv4 list \<Rightarrow> BucketIndex list" where
  "bucketize cfg ips = map (bucket_index cfg) ips"

text \<open>
  The body shared by the two loops of \<^verbatim>\<open>distribution\<close>:
  \<^verbatim>\<open>const auto b = bucket_index(ip); if (b < counts.size()) counts[b] += 1;\<close>
  An index outside the histogram is dropped.
\<close>

definition count_hit :: "Config \<Rightarrow> size_t list \<Rightarrow> IPv4 \<Rightarrow> size_t list" where
  "count_hit cfg counts ip =
     (let b = bucket_index cfg ip
      in if unat b < length counts then counts[unat b := counts ! unat b + 1] else counts)"

text \<open>\<^verbatim>\<open>BucketEngine::distribution(const std::vector<IPv4>&)\<close>. The histogram is
  allocated with \<open>bucket_count\<close> zeros; a failure of that allocation is not modelled.\<close>

definition distribution :: "Config \<Rightarrow> IPv4 list \<Rightarrow> size_t list" where
  "distribution cfg ips =
     (let m = cfg_bucket_count cfg;
          counts = replicate (unat m) 0
      in if m = 0 then counts else foldl (count_hit cfg) counts ips)"

text \<open>
  The loop of \<^verbatim>\<open>distribution(IPv4 start, IPv4 end)\<close>, on its 64-bit counter:
  \<^verbatim>\<open>for (uint64_t v = start; v < uint64_t(end); ++v) { ... bucket_index(IPv4(v)) ... }\<close>
  It is a total function: below \<open>e\<close> the counter cannot wrap, so the distance to \<open>e\<close>
  decreases with each step.
\<close>

lemma loop_step: "v < e \<Longrightarrow> unat (v + 1) = Suc (unat v)" for v e :: "64 word"
proof -
  assume "v < e"
  then have "unat v < unat e" by (simp add: word_less_nat_alt)
  moreover have "unat e < 2 ^ 64" using unsigned_less [of e, where ?'a = nat] by simp
  ultimately have "unat v + unat (1 :: 64 word) < 2 ^ LENGTH(64)" by simp
  then have "unat (v + 1) = unat v + unat (1 :: 64 word)" by (simp only: unat_add_lem)
  then show ?thesis by simp
qed

function distribution_loop :: "Config \<Rightarrow> 64 word \<Rightarrow> 64 word \<Rightarrow> size_t list \<Rightarrow> size_t list" where
  "distribution_loop cfg v e counts =
     (if v < e then distribution_loop cfg (v + 1) e (count_hit cfg counts (ucast v))
      else counts)"
  by pat_completeness auto
termination
  by (relation "measure (\<lambda>(cfg, v, e, counts). unat e - unat v)")
     (auto simp add: loop_step word_less_nat_alt)

declare distribution_loop.simps [simp del]

text \<open>\<^verbatim>\<open>BucketEngine::distribution(IPv4 start, IPv4 end)\<close>; \<open>end\<close> is written \<open>finish\<close>.\<close>

definition distribution_range :: "Config \<Rightarrow> IPv4 \<Rightarrow> IPv4 \<Rightarrow> size_t list" where
  "distribution_range cfg start finish =
     (let m = cfg_bucket_count cfg;
          counts = replicate (unat m) 0
      in if m = 0 then counts
         else if finish \<le> start then counts
         else distribution_loop cfg (ucast start) (ucast finish) counts)"


section \<open>The demo mode of the command line (apps/tb\_cli.cpp)\<close>



section \<open>Statistics (src/stats.cpp)\<close>

text \<open>
  Floating point. A \<^verbatim>\<open>double\<close> or \<^verbatim>\<open>long double\<close> value is modelled by the real number
  it denotes, and every floating-point operation by the exact operation followed by a
  rounding: \<open>rd\<close> rounds to \<^verbatim>\<open>double\<close>, \<open>rl\<close> to \<^verbatim>\<open>long double\<close>. Both are parameters of
  \<open>compute_stats\<close>. What the theorems use of a rounding is collected in \<open>rounding\<close>:
  it is monotone, odd and idempotent, exact on the integers up to \<open>2 ^ 53\<close> in
  magnitude and on the powers of two from \<open>2 ^ -64\<close> to \<open>2 ^ 64\<close>. IEEE 754
  round-to-nearest on binary64 and on every wider format has these properties; so has
  the identity, which gives the computation on exact reals. Infinities and NaN are not
  modelled: no operation of \<^verbatim>\<open>compute_stats\<close> reaches them, since counts are below
  \<open>2 ^ 64\<close>, there are fewer than \<open>2 ^ 64\<close> of them, and the code divides by the mean
  only after both the length and the sample count were found to be nonzero.
\<close>

definition rounding :: "(real \<Rightarrow> real) \<Rightarrow> bool" where
  "rounding r \<longleftrightarrow>
     (\<forall>x y. x \<le> y \<longrightarrow> r x \<le> r y) \<and>
     (\<forall>x. r (- x) = - r x) \<and>
     (\<forall>x. r (r x) = r x) \<and>
     (\<forall>i :: int. \<bar>i\<bar> \<le> 2 ^ 53 \<longrightarrow> r (of_int i) = of_int i) \<and>
     (\<forall>n \<le> 64. r (2 ^ n) = 2 ^ n \<and> r (1 / 2 ^ n) = 1 / 2 ^ n)"

text \<open>
  \<^verbatim>\<open>const double mean = static_cast<double>(n) / static_cast<double>(m);\<close>
\<close>

definition mean_block :: "(real \<Rightarrow> real) \<Rightarrow> size_t \<Rightarrow> size_t \<Rightarrow> real" where
  "mean_block rd n m = rd (rd (real (unat n)) / rd (real (unat m)))"

text \<open>
  The body of the variance loop, on \<^verbatim>\<open>long double\<close>:
  \<^verbatim>\<open>d = (long double)c - (long double)mean; acc += d * d;\<close>
\<close>

definition acc_step :: "(real \<Rightarrow> real) \<Rightarrow> real \<Rightarrow> real \<Rightarrow> size_t \<Rightarrow> real" where
  "acc_step rl mu acc c =
     (let d = rl (rl (real (unat c)) - rl mu)
      in rl (acc + rl (d * d)))"

text \<open>
  \<^verbatim>\<open>var = acc / (long double)m; r.stddev = std::sqrt(static_cast<double>(var));\<close>
\<close>

definition stddev_block ::
  "(real \<Rightarrow> real) \<Rightarrow> (real \<Rightarrow> real) \<Rightarrow> real \<Rightarrow> size_t \<Rightarrow> size_t list \<Rightarrow> real" where
  "stddev_block rd rl mu m counts =
     (let acc = foldl (acc_step rl mu) 0 counts;
          var = rl (acc / rl (real (unat m)))
      in rd (sqrt (rd var)))"

text \<open>
  The body of the chi-square loop:
  \<^verbatim>\<open>diff = (long double)c - (long double)mean; chi += (diff * diff) / (long double)mean;\<close>
  and \<^verbatim>\<open>r.chi2 = static_cast<double>(chi);\<close>
\<close>

definition chi_step :: "(real \<Rightarrow> real) \<Rightarrow> real \<Rightarrow> real \<Rightarrow> size_t \<Rightarrow> real" where
  "chi_step rl mu chi c =
     (let diff = rl (rl (real (unat c)) - rl mu)
      in rl (chi + rl (rl (diff * diff) / rl mu)))"

definition chi2_block :: "(real \<Rightarrow> real) \<Rightarrow> (real \<Rightarrow> real) \<Rightarrow> real \<Rightarrow> size_t list \<Rightarrow> real" where
  "chi2_block rd rl mu counts =
     (let chi = foldl (chi_step rl mu) 0 counts
      in rd chi)"

text \<open>
  \<^verbatim>\<open>std::minmax_element\<close>, as the values it points to: a scan that keeps the smallest
  and the largest element seen. On an empty range it returns the end iterator, which
  cannot be dereferenced: \<open>None\<close>.
\<close>

fun minmax_scan :: "size_t \<Rightarrow> size_t \<Rightarrow> size_t list \<Rightarrow> size_t \<times> size_t" where
  "minmax_scan lo hi [] = (lo, hi)"
| "minmax_scan lo hi (c # cs) =
     (if c < lo then minmax_scan c hi cs
      else if \<not> c < hi then minmax_scan lo c cs
      else minmax_scan lo hi cs)"

fun minmax_element :: "size_t list \<Rightarrow> (size_t \<times> size_t) option" where
  "minmax_element [] = None"
| "minmax_element (c # cs) = Some (minmax_scan c c cs)"

text \<open>
  The uniformity block:
  \<^verbatim>\<open>max_dev = std::max(std::abs(double(*max_it) - mean), std::abs(double(*min_it) - mean));\<close>
  \<^verbatim>\<open>double u = 1.0; if (mean > 0.0) u = 1.0 - (max_dev / mean);\<close>
  \<^verbatim>\<open>if (u < 0.0) u = 0.0; if (u > 1.0) u = 1.0; r.uniformity = u * 100.0;\<close>
\<close>

definition uniformity_block :: "(real \<Rightarrow> real) \<Rightarrow> real \<Rightarrow> size_t \<Rightarrow> size_t \<Rightarrow> real" where
  "uniformity_block rd mu min_v max_v =
     (let max_dev = max \<bar>rd (rd (real (unat max_v)) - mu)\<bar>
                        \<bar>rd (rd (real (unat min_v)) - mu)\<bar>;
          u = (if mu > 0 then rd (1 - rd (max_dev / mu)) else 1);
          u = (if u < 0 then 0 else u);
          u = (if u > 1 then 1 else u)
      in rd (u * 100))"

text \<open>
  \<^verbatim>\<open>compute_stats(counts)\<close>. \<^verbatim>\<open>std::accumulate\<close> with the initial value \<^verbatim>\<open>std::size_t{0}\<close>
  adds in \<^verbatim>\<open>size_t\<close>, so the sample count is the sum modulo \<open>2 ^ 64\<close>. The result
  starts as the value-initialised record and is returned as it is when there is no
  bucket or no sample. Past that test the vector is not empty, so the iterators of
  \<^verbatim>\<open>std::minmax_element\<close> can be dereferenced; the branch \<open>None\<close> below is never
  taken.
\<close>

definition compute_stats :: "(real \<Rightarrow> real) \<Rightarrow> (real \<Rightarrow> real) \<Rightarrow> size_t list \<Rightarrow> StatsResult" where
  "compute_stats rd rl counts =
     (let m = (of_nat (length counts) :: size_t);
          n = foldl (+) 0 counts;
          r = \<lparr>sample_count = n, bucket_count = m,
               mean = 0, stddev = 0, chi2 = 0, uniformity_pct = 0\<rparr>
      in if m = 0 \<or> n = 0 then r
         else
           let mu = mean_block rd n m;
               r = r\<lparr>mean := mu,
                      stddev := stddev_block rd rl mu m counts,
                      chi2 := chi2_block rd rl mu counts\<rparr>
           in case minmax_element counts of
                None \<Rightarrow> r
              | Some (min_v, max_v) \<Rightarrow> r\<lparr>uniformity_pct := uniformity_block rd mu min_v max_v\<rparr>)"

subsection \<open>The uniformity formula, as the specification words it\<close>

text \<open>
  ``Let \<open>max_dev = max(|max(counts) - mean|, |min(counts) - mean|)\<close>. If \<open>mean > 0\<close>,
  the fraction is \<open>1 - max_dev / mean\<close>, clamped to \<open>[0, 1]\<close>; if \<open>mean = 0\<close> the
  fraction is \<open>1\<close>. The uniformity is the fraction times \<open>100\<close>.'' The operations are
  those of \<^verbatim>\<open>double\<close>, so each is rounded by \<open>rd\<close>. The text says nothing for a
  negative mean: \<open>None\<close>.
\<close>

definition clamp01 :: "real \<Rightarrow> real" where
  "clamp01 x = max 0 (min 1 x)"

definition uniformity_spec :: "(real \<Rightarrow> real) \<Rightarrow> size_t list \<Rightarrow> real \<Rightarrow> real option" where
  "uniformity_spec rd counts mu =
     (let max_dev = max \<bar>rd (rd (real (unat (Max (set counts)))) - mu)\<bar>
                        \<bar>rd (rd (real (unat (Min (set counts)))) - mu)\<bar>
      in if mu > 0 then Some (rd (clamp01 (rd (1 - rd (max_dev / mu))) * 100))
         else if mu = 0 then Some (rd (1 * 100))
         else None)"

section \<open>Dotted-quad parsing (src/utils.cpp)\<close>

text \<open>
  \<^verbatim>\<open>parse_ipv4\<close> throws \<^verbatim>\<open>std::runtime_error\<close> with one of five messages; the model
  returns the error as a value.
\<close>

datatype parse_error =
    TooManyOctets | EmptyOctet | InvalidOctet | OctetOutOfRange | ExpectedFourOctets

text \<open>
  \<^verbatim>\<open>std::stoull(token)\<close>, base 10, with no position argument: as \<^verbatim>\<open>strtoull\<close> it skips
  leading white space, reads an optional sign and then the longest run of decimal
  digits, and ignores whatever follows. With no digit it throws
  \<^verbatim>\<open>std::invalid_argument\<close>, with a value of \<open>2 ^ 64\<close> or more \<^verbatim>\<open>std::out_of_range\<close>;
  after a minus sign the value is negated in the unsigned type.
\<close>

datatype stoull_exception = invalid_argument | out_of_range

definition isspace :: "char \<Rightarrow> bool" where
  "isspace c \<longleftrightarrow> c \<in> {CHR '' '', CHR 0x09, CHR 0x0A, CHR 0x0B, CHR 0x0C, CHR 0x0D}"

definition isdigit :: "char \<Rightarrow> bool" where
  "isdigit c \<longleftrightarrow> (48 :: nat) \<le> of_char c \<and> (of_char c :: nat) \<le> 57"

definition digit_value :: "char \<Rightarrow> nat" where
  "digit_value c = of_char c - 48"

definition stoull :: "string \<Rightarrow> stoull_exception + 64 word" where
  "stoull str =
     (let s1 = dropWhile isspace str;
          negative = (case s1 of c # _ \<Rightarrow> c = CHR ''-'' | [] \<Rightarrow> False);
          s2 = (case s1 of
                  c # cs \<Rightarrow> if c = CHR ''-'' \<or> c = CHR ''+'' then cs else s1
                | [] \<Rightarrow> s1);
          digits = takeWhile isdigit s2;
          v = foldl (\<lambda>acc c. acc * 10 + digit_value c) 0 digits
      in if digits = [] then Inl invalid_argument
         else if 2 ^ 64 \<le> v then Inl out_of_range
         else Inr (if negative then - of_nat v else of_nat v))"

text \<open>
  \<^verbatim>\<open>std::getline(iss, token, delim)\<close> on the unread rest of the string stream: it
  fails (\<open>None\<close>) when nothing is left; otherwise the token is what stands before the
  first delimiter, and the delimiter is consumed with it.
\<close>

fun getline :: "string \<Rightarrow> char \<Rightarrow> (string \<times> string) option" where
  "getline [] delim = None"
| "getline (c # cs) delim =
     Some (takeWhile (\<lambda>x. x \<noteq> delim) (c # cs),
           drop 1 (dropWhile (\<lambda>x. x \<noteq> delim) (c # cs)))"

lemma getline_shorter: "getline iss delim = Some (token, rest) \<Longrightarrow> length rest < length iss"
proof (cases iss)
  case Nil
  assume "getline iss delim = Some (token, rest)"
  with Nil show ?thesis by simp
next
  case (Cons c cs)
  assume "getline iss delim = Some (token, rest)"
  with Cons have "rest = drop 1 (dropWhile (\<lambda>x. x \<noteq> delim) (c # cs))" by simp
  moreover have "length (dropWhile (\<lambda>x. x \<noteq> delim) (c # cs)) \<le> length (c # cs)"
    by (rule length_dropWhile_le)
  ultimately show ?thesis using Cons by (cases "c = delim") auto
qed

text \<open>
  The \<^verbatim>\<open>while (std::getline(iss, token, '.'))\<close> loop, with the array \<^verbatim>\<open>parts\<close> and the
  index \<^verbatim>\<open>idx\<close> as its state. Each round reads at least one character, so the loop
  ends.
\<close>

function parse_loop :: "string \<Rightarrow> 32 word list \<Rightarrow> nat \<Rightarrow> parse_error + (32 word list \<times> nat)" where
  "parse_loop iss parts idx =
     (case getline iss CHR ''.'' of
        None \<Rightarrow> Inr (parts, idx)
      | Some (token, rest) \<Rightarrow>
          if 4 \<le> idx then Inl TooManyOctets
          else if token = [] then Inl EmptyOctet
          else (case stoull token of
                  Inl _ \<Rightarrow> Inl InvalidOctet
                | Inr v \<Rightarrow>
                    if 255 < v then Inl OctetOutOfRange
                    else parse_loop rest (parts[idx := ucast v]) (Suc idx)))"
  by pat_completeness auto
termination
  by (relation "measure (\<lambda>(iss, parts, idx). length iss)") (auto simp add: getline_shorter)

declare parse_loop.simps [simp del]

definition parse_ipv4 :: "string \<Rightarrow> parse_error + IPv4" where
  "parse_ipv4 s =
     (case parse_loop s [0, 0, 0, 0] 0 of
        Inl e \<Rightarrow> Inl e
      | Inr (parts, idx) \<Rightarrow>
          if idx \<noteq> 4 then Inl ExpectedFourOctets
          else Inr (push_bit 24 (parts ! 0) OR push_bit 16 (parts ! 1) OR
                    push_bit 8 (parts ! 2) OR parts ! 3))"

section \<open>Facts about 32-bit values widened to 64 bits\<close>

lemma unat_widen: "unat (ucast (w :: 32 word) :: 64 word) = unat w"
proof -
  have "unat w < 2 ^ 32" using unsigned_less [of w, where ?'a = nat] by simp
  then have "unat w < 2 ^ 64" by simp
  then show ?thesis by (simp add: unsigned_ucast_eq take_bit_nat_eq_self)
qed

lemma affine_narrow:
  "(ucast ((ucast (a :: 32 word) :: 64 word) * ucast (x :: 32 word) + ucast (b :: 32 word)) :: 32 word)
     = a * x + b"
proof -
  have "unat (ucast ((ucast a :: 64 word) * ucast x + ucast b) :: 32 word)
        = ((unat a * unat x + unat b) mod 2 ^ 64) mod 2 ^ 32"
    by (simp add: unsigned_ucast_eq take_bit_eq_mod unat_word_ariths unat_widen mod_simps)
  also have "\<dots> = (unat a * unat x + unat b) mod 2 ^ 32"
    by (simp add: mod_mod_cancel)
  also have "\<dots> = unat (a * x + b)"
    by (simp add: unat_word_ariths mod_simps)
  finally show ?thesis
    by (simp add: word_unat_eq_iff)
qed

lemma shift_narrow:
  "(ucast (drop_bit n (ucast (y :: 32 word) :: 64 word)) :: 32 word) = drop_bit n y"
  by (rule bit_word_eqI) (auto simp add: bit_simps dest: bit_imp_le_length)

lemma unat_32_minus: "\<not> 32 \<le> k \<Longrightarrow> unat (32 - k) = 32 - unat k" for k :: "32 word"
  by (simp add: unat_sub word_le_nat_alt)

lemma unat_two_power: "n < 64 \<Longrightarrow> unat (2 ^ n :: 64 word) = 2 ^ n"
proof -
  assume n: "n < 64"
  have lt: "(2 :: nat) ^ n < 2 ^ 64"
    by (rule power_strict_increasing [OF n]) simp
  have "(2 ^ n :: 64 word) = of_nat (2 ^ n)" by simp
  then have "unat (2 ^ n :: 64 word) = 2 ^ n mod 2 ^ LENGTH(64)"
    by (simp only: unat_of_nat)
  with lt show ?thesis by simp
qed


lemma replicate_two: "replicate 2 x = [x, x]"
  by (simp add: numeral_2_eq_2)

section \<open>The bucket index is the top k bits of the affine image\<close>

lemma bucket_index_eq:
  "bucket_index cfg x =
     (let y = cfg_a cfg * x + cfg_b cfg
      in if cfg_k cfg = 0 then 0
         else if 32 \<le> cfg_k cfg then y
         else drop_bit (32 - unat (cfg_k cfg)) y)"
  by (simp add: bucket_index_def bucket_from_y_def affine_narrow shift_narrow
      unat_32_minus Let_def)

text \<open>
  Claim C1. For every configuration \<open>(a, b, k)\<close> and every 32-bit address \<open>x\<close>, with
  \<open>y = a * x + b\<close> in wrapping 32-bit arithmetic, \<open>bucket_index x\<close> is \<open>0\<close> when
  \<open>k = 0\<close>, is \<open>y\<close> itself when \<open>k \<ge> 32\<close>, and is \<open>y\<close> shifted right by \<open>32 - k\<close> bits
  otherwise. The right-hand side lives in \<open>32 word\<close>, where \<open>*\<close> and \<open>+\<close> are taken
  modulo \<open>2 ^ 32\<close>; the code computes on 64 bits and truncates.
\<close>

theorem bucket_index_top_bits:
  "bucket_index cfg x =
     (let y = cfg_a cfg * x + cfg_b cfg
      in if cfg_k cfg = 0 then 0
         else if 32 \<le> cfg_k cfg then y
         else drop_bit (32 - unat (cfg_k cfg)) y)"
  by (rule bucket_index_eq)

section \<open>Every bucket index lies inside the histogram\<close>

lemma unat_cfg_bucket_count:
  "unat (cfg_bucket_count cfg) = (if 32 \<le> cfg_k cfg then 2 ^ 32 else 2 ^ unat (cfg_k cfg))"
proof (cases "32 \<le> cfg_k cfg")
  case True
  then show ?thesis by (simp add: cfg_bucket_count_def)
next
  case False
  then have "unat (cfg_k cfg) < 32" by (simp add: word_le_nat_alt)
  then have "unat (cfg_k cfg) < 64" by simp
  then have "unat (push_bit (unat (cfg_k cfg)) 1 :: 64 word) = 2 ^ unat (cfg_k cfg)"
    by (simp add: unat_two_power)
  with False show ?thesis by (simp only: cfg_bucket_count_def if_False)
qed

lemma cfg_bucket_count_nonzero: "cfg_bucket_count cfg \<noteq> 0"
proof -
  have "0 < unat (cfg_bucket_count cfg)" by (simp add: unat_cfg_bucket_count)
  then show ?thesis by (simp add: unat_gt_0)
qed

lemma bucket_index_in_range: "unat (bucket_index cfg ip) < unat (cfg_bucket_count cfg)"
proof -
  define y where "y = cfg_a cfg * ip + cfg_b cfg"
  have y32: "unat y < 2 ^ 32" using unsigned_less [of y, where ?'a = nat] by simp
  consider "cfg_k cfg = 0" | "32 \<le> cfg_k cfg" | "cfg_k cfg \<noteq> 0" "\<not> 32 \<le> cfg_k cfg"
    by blast
  then show ?thesis
  proof cases
    case 1
    then show ?thesis by (simp add: bucket_index_eq unat_cfg_bucket_count)
  next
    case 2
    then have "cfg_k cfg \<noteq> 0" by auto
    with 2 y32 show ?thesis by (simp add: bucket_index_eq unat_cfg_bucket_count y_def)
  next
    case 3
    then have k: "unat (cfg_k cfg) < 32" by (simp add: word_le_nat_alt)
    have "unat y < 2 ^ (32 - unat (cfg_k cfg)) * 2 ^ unat (cfg_k cfg)"
      using y32 k by (simp flip: power_add)
    then have "unat y div 2 ^ (32 - unat (cfg_k cfg)) < 2 ^ unat (cfg_k cfg)"
      by (simp add: less_mult_imp_div_less mult.commute)
    then have "unat (drop_bit (32 - unat (cfg_k cfg)) y) < 2 ^ unat (cfg_k cfg)"
      by (simp only: unat_drop_bit_eq drop_bit_eq_div [where ?'a = nat])
    moreover have "bucket_index cfg ip = drop_bit (32 - unat (cfg_k cfg)) y"
      using 3 by (simp only: bucket_index_eq y_def Let_def if_False)
    ultimately show ?thesis
      using 3 by (simp only: unat_cfg_bucket_count if_False)
  qed
qed

section \<open>What a histogram counts\<close>

lemma length_count_hit [simp]: "length (count_hit cfg counts ip) = length counts"
  by (simp add: count_hit_def Let_def)

lemma length_foldl_count_hit [simp]: "length (foldl (count_hit cfg) counts ips) = length counts"
  by (induction ips arbitrary: counts) simp_all

lemma length_distribution: "length (distribution cfg ips) = unat (cfg_bucket_count cfg)"
  by (simp add: distribution_def Let_def)

lemma nth_count_hit:
  "i < length counts \<Longrightarrow>
   count_hit cfg counts ip ! i =
     (if unat (bucket_index cfg ip) = i then counts ! i + 1 else counts ! i)"
  by (auto simp add: count_hit_def Let_def nth_list_update)

text \<open>A counter grows by one for each address of its bucket, as long as it does not
  pass \<open>2 ^ 64\<close>.\<close>

lemma unat_foldl_count_hit:
  "i < length counts \<Longrightarrow> unat (counts ! i) + length ips < 2 ^ 64 \<Longrightarrow>
   unat (foldl (count_hit cfg) counts ips ! i) =
     unat (counts ! i) + length (filter (\<lambda>ip. unat (bucket_index cfg ip) = i) ips)"
proof (induction ips arbitrary: counts)
  case Nil
  then show ?case by simp
next
  case (Cons ip ips)
  let ?c = "count_hit cfg counts ip"
  have len: "i < length ?c" using Cons.prems(1) by simp
  show ?case
  proof (cases "unat (bucket_index cfg ip) = i")
    case True
    have "unat (counts ! i) + unat (1 :: 64 word) < 2 ^ LENGTH(64)"
      using Cons.prems(2) by simp
    then have "unat (counts ! i + 1) = unat (counts ! i) + unat (1 :: 64 word)"
      by (simp only: unat_add_lem)
    then have step: "unat (?c ! i) = Suc (unat (counts ! i))"
      using True Cons.prems(1) by (simp add: nth_count_hit)
    then have "unat (?c ! i) + length ips < 2 ^ 64" using Cons.prems(2) by simp
    from Cons.IH [OF len this] step True show ?thesis by simp
  next
    case False
    then have step: "?c ! i = counts ! i"
      using Cons.prems(1) by (simp add: nth_count_hit)
    then have "unat (?c ! i) + length ips < 2 ^ 64" using Cons.prems(2) by simp
    from Cons.IH [OF len this] step False show ?thesis by simp
  qed
qed

lemma unat_distribution_nth:
  assumes "i < unat (cfg_bucket_count cfg)" and "length ips < 2 ^ 64"
  shows "unat (distribution cfg ips ! i) =
           length (filter (\<lambda>ip. unat (bucket_index cfg ip) = i) ips)"
proof -
  let ?z = "replicate (unat (cfg_bucket_count cfg)) (0 :: 64 word)"
  have "unat (foldl (count_hit cfg) ?z ips ! i) =
        unat (?z ! i) + length (filter (\<lambda>ip. unat (bucket_index cfg ip) = i) ips)"
    by (rule unat_foldl_count_hit) (use assms in simp_all)
  then show ?thesis
    using assms(1) by (simp add: distribution_def Let_def cfg_bucket_count_nonzero)
qed

lemma sum_hits:
  "(\<forall>x \<in> set xs. f x < n) \<Longrightarrow> (\<Sum>i<n. length (filter (\<lambda>x. f x = i) xs)) = length xs"
  for f :: "'a \<Rightarrow> nat"
proof (induction xs)
  case Nil
  then show ?case by simp
next
  case (Cons x xs)
  then have fx: "f x < n" by simp
  have "(\<Sum>i<n. length (filter (\<lambda>y. f y = i) (x # xs))) =
        (\<Sum>i<n. (if f x = i then 1 else 0) + length (filter (\<lambda>y. f y = i) xs))"
    by (rule sum.cong) auto
  also have "\<dots> = (\<Sum>i<n. if f x = i then 1 else 0) +
                   (\<Sum>i<n. length (filter (\<lambda>y. f y = i) xs))"
    by (simp add: sum.distrib)
  also have "(\<Sum>i<n. if f x = i then 1 else (0::nat)) = 1"
    using fx by simp
  finally show ?case using Cons by simp
qed

lemma sum_list_distribution:
  assumes "length ips < 2 ^ 64"
  shows "sum_list (map unat (distribution cfg ips)) = length ips"
proof -
  let ?m = "unat (cfg_bucket_count cfg)"
  have "sum_list (map unat (distribution cfg ips)) = (\<Sum>i<?m. unat (distribution cfg ips ! i))"
    by (simp add: sum_list_sum_nth length_distribution atLeast0LessThan)
  also have "\<dots> = (\<Sum>i<?m. length (filter (\<lambda>ip. unat (bucket_index cfg ip) = i) ips))"
  proof (rule sum.cong)
    fix i assume "i \<in> {..<?m}"
    then have "i < ?m" by simp
    then show "unat (distribution cfg ips ! i) =
               length (filter (\<lambda>ip. unat (bucket_index cfg ip) = i) ips)"
      using assms by (rule unat_distribution_nth)
  qed simp
  also have "\<dots> = length ips"
    by (rule sum_hits) (simp add: bucket_index_in_range)
  finally show ?thesis .
qed

text \<open>
  Claim C9. For every configuration and every list of addresses (a vector, so shorter
  than \<open>2 ^ 64\<close>), the histogram of \<open>distribution\<close> has the length
  \<open>bucket_count\<close>, every bucket index is strictly below that length, so that the
  branch dropping an out-of-range index is never taken, and the counts sum to the
  length of the list.
\<close>

theorem distribution_sums_to_length:
  "length ips < 2 ^ 64 \<Longrightarrow>
     length (distribution cfg ips) = unat (cfg_bucket_count cfg) \<and>
     (\<forall>ip. unat (bucket_index cfg ip) < unat (cfg_bucket_count cfg)) \<and>
     sum_list (map unat (distribution cfg ips)) = length ips"
  by (simp only: length_distribution bucket_index_in_range sum_list_distribution) simp

text \<open>The theorem on the six addresses of the test suite, and their histogram with a
  single bucket (scenario 2 of the specification).\<close>

lemma single_bucket_histogram:
  "distribution (default_cfg\<lparr>cfg_k := 0\<rparr>) [0, 1, 42, 0x7F000001, 0xC0A80001, 0xFFFFFFFF] = [6]"
  by code_simp

theorem distribution_sums_to_length_witness:
  "length [0, 1, 42, 0x7F000001, 0xC0A80001, 0xFFFFFFFF :: 32 word] < 2 ^ 64 \<and>
   length (distribution default_cfg [0, 1, 42, 0x7F000001, 0xC0A80001, 0xFFFFFFFF]) = 4096 \<and>
   unat (bucket_index default_cfg 0xC0A80001) < 4096 \<and>
   sum_list (map unat (distribution default_cfg [0, 1, 42, 0x7F000001, 0xC0A80001, 0xFFFFFFFF])) = 6"
proof -
  have len: "length [0, 1, 42, 0x7F000001, 0xC0A80001, 0xFFFFFFFF :: 32 word] < 2 ^ 64" by simp
  have m: "unat (cfg_bucket_count default_cfg) = 4096"
    by (simp add: cfg_bucket_count_def default_cfg_def word_le_nat_alt)
  show ?thesis
    using distribution_sums_to_length [OF len, of default_cfg]
    by (simp add: m)
qed

section \<open>The histogram of a range\<close>











text \<open>
  Claim C7. For every configuration and every pair with \<open>finish \<le> start\<close>,
  \<open>distribution(start, finish)\<close> is the all-zero histogram of length
  \<open>bucket_count\<close>; the witness is the pair \<open>(0, 0)\<close>.
\<close>

theorem distribution_empty_range:
  "finish \<le> start \<Longrightarrow>
     distribution_range cfg start finish = replicate (unat (cfg_bucket_count cfg)) 0"
  by (simp add: distribution_range_def Let_def)

theorem distribution_empty_range_witness:
  "(0 :: 32 word) \<le> 0 \<and> distribution_range (default_cfg\<lparr>cfg_k := 1\<rparr>) 0 0 = [0, 0]"
proof -
  have le: "(0 :: 32 word) \<le> 0" by simp
  have m: "unat (cfg_bucket_count (default_cfg\<lparr>cfg_k := 1\<rparr>)) = 2"
    by (simp add: cfg_bucket_count_def default_cfg_def word_le_nat_alt)
  show ?thesis
    using distribution_empty_range [OF le, of "default_cfg\<lparr>cfg_k := 1\<rparr>"]
    by (simp add: m replicate_two)
qed

section \<open>Roundings\<close>

lemma rounding_id: "rounding id"
  by (simp add: rounding_def)

lemma rounding_mono: "rounding r \<Longrightarrow> x \<le> y \<Longrightarrow> r x \<le> r y"
  by (simp add: rounding_def)

lemma rounding_of_int: "rounding r \<Longrightarrow> \<bar>i\<bar> \<le> 2 ^ 53 \<Longrightarrow> r (of_int i) = of_int i"
  by (simp add: rounding_def)

lemma rounding_0: "rounding r \<Longrightarrow> r 0 = 0"
  using rounding_of_int [of r 0] by simp

lemma rounding_1: "rounding r \<Longrightarrow> r 1 = 1"
  using rounding_of_int [of r 1] by simp

lemma rounding_numeral:
  "rounding r \<Longrightarrow> (numeral k :: int) \<le> 2 ^ 53 \<Longrightarrow> r (numeral k) = numeral k"
  using rounding_of_int [of r "numeral k"] by simp

lemma rounding_neg_numeral:
  "rounding r \<Longrightarrow> (numeral k :: int) \<le> 2 ^ 53 \<Longrightarrow> r (- numeral k) = - numeral k"
  using rounding_of_int [of r "- numeral k"] by simp

lemmas rounding_evals = rounding_0 rounding_1 rounding_numeral rounding_neg_numeral

lemma rounding_nonneg: "rounding r \<Longrightarrow> 0 \<le> x \<Longrightarrow> 0 \<le> r x"
  using rounding_mono [of r 0 x] by (simp add: rounding_0)

lemma rounding_nonpos: "rounding r \<Longrightarrow> x \<le> 0 \<Longrightarrow> r x \<le> 0"
  using rounding_mono [of r x 0] by (simp add: rounding_0)

lemma rounding_ge_1: "rounding r \<Longrightarrow> 1 \<le> x \<Longrightarrow> 1 \<le> r x"
  using rounding_mono [of r 1 x] by (simp add: rounding_1)

lemma rounding_idem: "rounding r \<Longrightarrow> r (r x) = r x"
  by (simp add: rounding_def)

lemma rounding_minus: "rounding r \<Longrightarrow> r (- x) = - r x"
  by (simp add: rounding_def)

lemma rounding_pow2: "rounding r \<Longrightarrow> n \<le> 64 \<Longrightarrow> r (2 ^ n) = 2 ^ n"
  by (simp add: rounding_def)

lemma rounding_inv_pow2: "rounding r \<Longrightarrow> n \<le> 64 \<Longrightarrow> r (1 / 2 ^ n) = 1 / 2 ^ n"
  by (simp add: rounding_def)

section \<open>The blocks of the statistics\<close>

lemma acc_step_nonneg:
  assumes rl: "rounding rl" and acc: "0 \<le> acc"
  shows "0 \<le> acc_step rl mu acc c"
proof -
  define d where "d = rl (rl (real (unat c)) - rl mu)"
  have "0 \<le> rl (d * d)" by (rule rounding_nonneg [OF rl]) simp
  with acc have "0 \<le> acc + rl (d * d)" by simp
  then have "0 \<le> rl (acc + rl (d * d))" by (rule rounding_nonneg [OF rl])
  then show ?thesis by (simp only: acc_step_def Let_def d_def)
qed

lemma foldl_acc_nonneg: "rounding rl \<Longrightarrow> 0 \<le> acc \<Longrightarrow> 0 \<le> foldl (acc_step rl mu) acc cs"
  by (induction cs arbitrary: acc) (simp_all add: acc_step_nonneg)

lemma chi_step_nonneg:
  assumes rl: "rounding rl" and mu: "0 \<le> mu" and chi: "0 \<le> chi"
  shows "0 \<le> chi_step rl mu chi c"
proof -
  define diff where "diff = rl (rl (real (unat c)) - rl mu)"
  have "0 \<le> rl (diff * diff)" by (rule rounding_nonneg [OF rl]) simp
  moreover have "0 \<le> rl mu" using mu by (rule rounding_nonneg [OF rl])
  ultimately have "0 \<le> rl (diff * diff) / rl mu" by (rule divide_nonneg_nonneg)
  then have "0 \<le> rl (rl (diff * diff) / rl mu)" by (rule rounding_nonneg [OF rl])
  with chi have "0 \<le> chi + rl (rl (diff * diff) / rl mu)" by simp
  then have "0 \<le> rl (chi + rl (rl (diff * diff) / rl mu))" by (rule rounding_nonneg [OF rl])
  then show ?thesis by (simp only: chi_step_def Let_def diff_def)
qed

lemma foldl_chi_nonneg:
  "rounding rl \<Longrightarrow> 0 \<le> mu \<Longrightarrow> 0 \<le> chi \<Longrightarrow> 0 \<le> foldl (chi_step rl mu) chi cs"
  by (induction cs arbitrary: chi) (simp_all add: chi_step_nonneg)

lemma mean_nonneg:
  assumes r: "rounding rd"
  shows "0 \<le> mean_block rd n m"
proof -
  have "0 \<le> rd (real (unat n))" "0 \<le> rd (real (unat m))"
    by (rule rounding_nonneg [OF r], rule of_nat_0_le_iff)+
  then have "0 \<le> rd (real (unat n)) / rd (real (unat m))"
    by (rule divide_nonneg_nonneg)
  then have "0 \<le> rd (rd (real (unat n)) / rd (real (unat m)))"
    by (rule rounding_nonneg [OF r])
  then show ?thesis by (simp only: mean_block_def)
qed

text \<open>With at least one sample and at least one bucket the mean is positive: the
  quotient is at least \<open>2 ^ -64\<close>, which no rounding takes to zero.\<close>

lemma mean_positive:
  fixes n m :: "64 word"
  assumes r: "rounding rd" and n: "n \<noteq> 0" and m: "m \<noteq> 0"
  shows "0 < mean_block rd n m"
proof -
  have "1 \<le> unat n" using n by (simp add: unat_gt_0 Suc_le_eq)
  then have "1 \<le> real (unat n)" using of_nat_mono [of 1 "unat n", where ?'a = real] by simp
  then have num: "1 \<le> rd (real (unat n))" using r by (simp add: rounding_ge_1)
  have "1 \<le> unat m" using m by (simp add: unat_gt_0 Suc_le_eq)
  then have "1 \<le> real (unat m)" using of_nat_mono [of 1 "unat m", where ?'a = real] by simp
  then have den1: "1 \<le> rd (real (unat m))" using r by (simp add: rounding_ge_1)
  have "unat m < 2 ^ 64" using unsigned_less [of m, where ?'a = nat] by simp
  then have "real (unat m) \<le> 2 ^ 64"
    by (metis less_imp_le of_nat_le_iff of_nat_numeral of_nat_power)
  then have "rd (real (unat m)) \<le> rd (2 ^ 64)" using r by (rule rounding_mono [rotated])
  then have den2: "rd (real (unat m)) \<le> 2 ^ 64"
    using r by (simp only: rounding_pow2 [OF r order_refl])
  have "1 / 2 ^ 64 \<le> 1 / rd (real (unat m))"
    using den1 den2 by (intro divide_left_mono) simp_all
  also have "\<dots> \<le> rd (real (unat n)) / rd (real (unat m))"
    using num den1 by (intro divide_right_mono) simp_all
  finally have "rd (1 / 2 ^ 64) \<le> rd (rd (real (unat n)) / rd (real (unat m)))"
    using r by (rule rounding_mono [rotated])
  then have "1 / 2 ^ 64 \<le> rd (rd (real (unat n)) / rd (real (unat m)))"
    by (simp only: rounding_inv_pow2 [OF r order_refl])
  moreover have "(0 :: real) < 1 / 2 ^ 64" by simp
  ultimately have "0 < rd (rd (real (unat n)) / rd (real (unat m)))"
    by (rule less_le_trans [rotated])
  then show ?thesis by (simp only: mean_block_def)
qed

lemma mean_block_fixed: "rounding rd \<Longrightarrow> rd (mean_block rd n m) = mean_block rd n m"
  by (simp add: mean_block_def rounding_idem)

lemma stddev_block_nonneg:
  assumes rd: "rounding rd" and rl: "rounding rl"
  shows "0 \<le> stddev_block rd rl mu m counts"
proof -
  have "0 \<le> foldl (acc_step rl mu) 0 counts"
    by (rule foldl_acc_nonneg [OF rl]) simp
  moreover have "0 \<le> rl (real (unat m))"
    by (rule rounding_nonneg [OF rl]) (rule of_nat_0_le_iff)
  ultimately have "0 \<le> foldl (acc_step rl mu) 0 counts / rl (real (unat m))"
    by (rule divide_nonneg_nonneg)
  then have "0 \<le> rl (foldl (acc_step rl mu) 0 counts / rl (real (unat m)))"
    by (rule rounding_nonneg [OF rl])
  then have "0 \<le> rd (rl (foldl (acc_step rl mu) 0 counts / rl (real (unat m))))"
    by (rule rounding_nonneg [OF rd])
  then have "0 \<le> sqrt (rd (rl (foldl (acc_step rl mu) 0 counts / rl (real (unat m)))))"
    by (rule real_sqrt_ge_zero)
  then have "0 \<le> rd (sqrt (rd (rl (foldl (acc_step rl mu) 0 counts / rl (real (unat m))))))"
    by (rule rounding_nonneg [OF rd])
  then show ?thesis by (simp only: stddev_block_def Let_def)
qed

lemma chi2_block_nonneg:
  assumes rd: "rounding rd" and rl: "rounding rl" and mu: "0 \<le> mu"
  shows "0 \<le> chi2_block rd rl mu counts"
proof -
  have "0 \<le> foldl (chi_step rl mu) 0 counts"
    by (rule foldl_chi_nonneg [OF rl mu]) simp
  then have "0 \<le> rd (foldl (chi_step rl mu) 0 counts)"
    by (rule rounding_nonneg [OF rd])
  then show ?thesis by (simp only: chi2_block_def Let_def)
qed

lemma uniformity_block_range:
  assumes "rounding rd"
  shows "0 \<le> uniformity_block rd mu lo hi \<and> uniformity_block rd mu lo hi \<le> 100"
proof -
  define max_dev where
    "max_dev = max \<bar>rd (rd (real (unat hi)) - mu)\<bar> \<bar>rd (rd (real (unat lo)) - mu)\<bar>"
  define u1 where "u1 = (if mu > 0 then rd (1 - rd (max_dev / mu)) else 1)"
  define u2 where "u2 = (if u1 < 0 then 0 else u1)"
  define u3 where "u3 = (if u2 > 1 then 1 else u2)"
  have eq: "uniformity_block rd mu lo hi = rd (u3 * 100)"
    by (simp add: uniformity_block_def Let_def max_dev_def u1_def u2_def u3_def)
  have "0 \<le> u3" "u3 \<le> 1" by (simp_all add: u3_def u2_def)
  then have "0 \<le> u3 * 100" "u3 * 100 \<le> 100" by simp_all
  then have "rd 0 \<le> rd (u3 * 100)" "rd (u3 * 100) \<le> rd 100"
    using assms by (simp_all add: rounding_mono)
  then show ?thesis using assms by (simp add: eq rounding_0 rounding_numeral)
qed

text \<open>A bucket with no sample puts the largest deviation at the mean or above, and
  the clamp gives zero.\<close>

lemma uniformity_block_zero_min:
  assumes rd: "rounding rd" and mu: "0 < mu" and fixed: "rd mu = mu"
  shows "uniformity_block rd mu 0 hi = 0"
proof -
  define max_dev where
    "max_dev = max \<bar>rd (rd (real (unat hi)) - mu)\<bar> \<bar>rd (rd (real (unat (0 :: 64 word))) - mu)\<bar>"
  define u1 where "u1 = rd (1 - rd (max_dev / mu))"
  have "rd (rd (real (unat (0 :: 64 word))) - mu) = - mu"
    using rd fixed by (simp add: rounding_0 rounding_minus)
  then have "mu \<le> max_dev" using mu by (simp add: max_dev_def)
  then have "1 \<le> max_dev / mu" using mu by simp
  then have "1 \<le> rd (max_dev / mu)" by (rule rounding_ge_1 [OF rd])
  then have "1 - rd (max_dev / mu) \<le> 0" by simp
  then have "u1 \<le> 0" unfolding u1_def by (rule rounding_nonpos [OF rd])
  then have "(let u = (if u1 < 0 then 0 else u1) in if u > 1 then 1 else u) = 0"
    by (simp add: Let_def)
  moreover have "uniformity_block rd mu 0 hi =
      rd ((let u = (if u1 < 0 then 0 else u1) in if u > 1 then 1 else u) * 100)"
    using mu by (simp add: uniformity_block_def u1_def max_dev_def Let_def)
  ultimately show ?thesis using rd by (simp add: rounding_0)
qed

lemma minmax_scan_fold:
  "lo \<le> hi \<Longrightarrow> minmax_scan lo hi cs = (fold min cs lo, fold max cs hi)"
proof (induction cs arbitrary: lo hi)
  case Nil
  then show ?case by simp
next
  case (Cons c cs)
  consider "c < lo" | "\<not> c < lo" "\<not> c < hi" | "\<not> c < lo" "c < hi" by blast
  then show ?case
  proof cases
    case 1
    then have "c \<le> hi" using Cons.prems by simp
    moreover have "min c lo = c" "max c hi = hi" using 1 \<open>c \<le> hi\<close> by simp_all
    ultimately show ?thesis using 1 Cons.IH [of c hi] by simp
  next
    case 2
    then have "lo \<le> c" by simp
    moreover have "min c lo = lo" "max c hi = c" using 2 by simp_all
    ultimately show ?thesis using 2 Cons.IH [of lo c] by simp
  next
    case 3
    have "min c lo = lo" "max c hi = hi" using 3 by simp_all
    then show ?thesis using 3 Cons.IH [OF Cons.prems] by simp
  qed
qed

lemma minmax_element_Min_Max:
  "counts \<noteq> [] \<Longrightarrow> minmax_element counts = Some (Min (set counts), Max (set counts))"
proof (cases counts)
  case Nil
  assume "counts \<noteq> []"
  with Nil show ?thesis by simp
next
  case (Cons c cs)
  show ?thesis
    by (simp only: Cons Min.set_eq_fold Max.set_eq_fold minmax_element.simps
        minmax_scan_fold [OF order_refl])
qed

lemma Min_zero: "(0 :: 64 word) \<in> set h \<Longrightarrow> Min (set h) = 0"
  by (intro Min_eqI) simp_all

section \<open>The result of compute\_stats\<close>

lemma foldl_plus_sum_list: "foldl (+) a xs = a + sum_list xs" for a :: "64 word"
proof (induction xs arbitrary: a)
  case Nil
  show ?case by simp
next
  case (Cons x xs)
  have "foldl (+) a (x # xs) = (a + x) + sum_list xs"
    by (simp only: foldl_Cons Cons.IH)
  also have "\<dots> = a + sum_list (x # xs)"
    by (simp only: sum_list.Cons add.assoc)
  finally show ?case .
qed

text \<open>The sum in \<^verbatim>\<open>size_t\<close> is the sum of the counts modulo \<open>2 ^ 64\<close>.\<close>

lemma unat_sum_list: "unat (sum_list xs :: 64 word) = sum_list (map unat xs) mod 2 ^ 64"
proof (induction xs)
  case Nil
  then show ?case by simp
next
  case (Cons x xs)
  have "unat (x + sum_list xs) = (unat x + unat (sum_list xs)) mod 2 ^ 64"
    by (simp add: unat_word_ariths)
  also have "\<dots> = (unat x + sum_list (map unat xs) mod 2 ^ 64) mod 2 ^ 64"
    by (simp only: Cons.IH)
  also have "\<dots> = (unat x + sum_list (map unat xs)) mod 2 ^ 64"
    by (simp only: mod_add_right_eq)
  finally show ?case by simp
qed

lemma sum_list_unat_zero:
  "sum_list (map unat h) = 0 \<Longrightarrow> sum_list h = (0 :: 64 word)"
proof -
  assume "sum_list (map unat h) = 0"
  then have "sum_list (map unat h) mod 2 ^ 64 = 0" by (simp only: mod_0)
  then have "unat (sum_list h) = 0" by (simp only: unat_sum_list)
  then show ?thesis by (simp only: unat_eq_0)
qed

lemma unat_length: "length h < 2 ^ 64 \<Longrightarrow> unat (of_nat (length h) :: 64 word) = length h"
  by (simp add: unat_of_nat)

lemma length_nonzero_word:
  "h \<noteq> [] \<Longrightarrow> length h < 2 ^ 64 \<Longrightarrow> of_nat (length h) \<noteq> (0 :: 64 word)"
proof -
  assume "h \<noteq> []" and len: "length h < 2 ^ 64"
  then have "0 < length h" by simp
  then have "0 < unat (of_nat (length h) :: 64 word)" using len by (simp only: unat_length)
  then show ?thesis by (simp only: unat_gt_0 simp_thms)
qed

text \<open>The early return, and the full computation.\<close>

lemma compute_stats_degenerate:
  "of_nat (length h) = (0 :: 64 word) \<or> sum_list h = 0 \<Longrightarrow>
   compute_stats rd rl h =
     \<lparr>sample_count = sum_list h, bucket_count = of_nat (length h),
      mean = 0, stddev = 0, chi2 = 0, uniformity_pct = 0\<rparr>"
  by (auto simp add: compute_stats_def Let_def foldl_plus_sum_list)

lemma compute_stats_regular:
  assumes "of_nat (length h) \<noteq> (0 :: 64 word)" and "sum_list h \<noteq> 0"
  shows "compute_stats rd rl h =
     \<lparr>sample_count = sum_list h, bucket_count = of_nat (length h),
      mean = mean_block rd (sum_list h) (of_nat (length h)),
      stddev = stddev_block rd rl (mean_block rd (sum_list h) (of_nat (length h)))
                 (of_nat (length h)) h,
      chi2 = chi2_block rd rl (mean_block rd (sum_list h) (of_nat (length h))) h,
      uniformity_pct = uniformity_block rd (mean_block rd (sum_list h) (of_nat (length h)))
                     (Min (set h)) (Max (set h))\<rparr>"
proof -
  from assms(1) have "h \<noteq> []" by auto
  then have "minmax_element h = Some (Min (set h), Max (set h))"
    by (rule minmax_element_Min_Max)
  with assms show ?thesis
    by (simp add: compute_stats_def Let_def foldl_plus_sum_list)
qed

lemma sample_count_eq: "sample_count (compute_stats rd rl h) = sum_list h"
  by (cases "of_nat (length h) = (0 :: 64 word) \<or> sum_list h = 0")
     (simp_all add: compute_stats_degenerate compute_stats_regular)

lemma bucket_count_eq: "bucket_count (compute_stats rd rl h) = of_nat (length h)"
  by (cases "of_nat (length h) = (0 :: 64 word) \<or> sum_list h = 0")
     (simp_all add: compute_stats_degenerate compute_stats_regular)

text \<open>
  Claim C4, as amended. For every histogram \<open>h\<close> (a vector, so shorter than
  \<open>2 ^ 64\<close>) and every pair of roundings, \<open>sample_count\<close> is the sum of the counts
  modulo \<open>2 ^ 64\<close>, hence the sum itself whenever that is below \<open>2 ^ 64\<close>;
  \<open>bucket_count\<close> is the length of \<open>h\<close>; the uniformity lies in \<open>[0, 100]\<close>;
  \<open>stddev \<ge> 0\<close> and \<open>chi2 \<ge> 0\<close>.
\<close>

theorem compute_stats_invariants:
  assumes "rounding rd" and "rounding rl" and "length h < 2 ^ 64"
  shows "unat (sample_count (compute_stats rd rl h)) = sum_list (map unat h) mod 2 ^ 64 \<and>
         (sum_list (map unat h) < 2 ^ 64 \<longrightarrow>
            unat (sample_count (compute_stats rd rl h)) = sum_list (map unat h)) \<and>
         unat (bucket_count (compute_stats rd rl h)) = length h \<and>
         0 \<le> uniformity_pct (compute_stats rd rl h) \<and>
         uniformity_pct (compute_stats rd rl h) \<le> 100 \<and>
         0 \<le> stddev (compute_stats rd rl h) \<and>
         0 \<le> chi2 (compute_stats rd rl h)"
proof (intro conjI impI)
  show sc: "unat (sample_count (compute_stats rd rl h)) = sum_list (map unat h) mod 2 ^ 64"
    by (simp only: sample_count_eq unat_sum_list)
  show "unat (sample_count (compute_stats rd rl h)) = sum_list (map unat h)"
    if "sum_list (map unat h) < 2 ^ 64"
    using that by (simp only: sc mod_less)
  show "unat (bucket_count (compute_stats rd rl h)) = length h"
    using assms(3) by (simp only: bucket_count_eq unat_length)
  show "0 \<le> uniformity_pct (compute_stats rd rl h)"
    using uniformity_block_range [OF assms(1)]
    by (cases "of_nat (length h) = (0 :: 64 word) \<or> sum_list h = 0")
       (simp_all add: compute_stats_degenerate compute_stats_regular)
  show "uniformity_pct (compute_stats rd rl h) \<le> 100"
    using uniformity_block_range [OF assms(1)]
    by (cases "of_nat (length h) = (0 :: 64 word) \<or> sum_list h = 0")
       (simp_all add: compute_stats_degenerate compute_stats_regular)
  show "0 \<le> stddev (compute_stats rd rl h)"
    using assms(1,2)
    by (cases "of_nat (length h) = (0 :: 64 word) \<or> sum_list h = 0")
       (simp_all add: compute_stats_degenerate compute_stats_regular stddev_block_nonneg)
  show "0 \<le> chi2 (compute_stats rd rl h)"
    using assms(1,2)
    by (cases "of_nat (length h) = (0 :: 64 word) \<or> sum_list h = 0")
       (simp_all add: compute_stats_degenerate compute_stats_regular chi2_block_nonneg
          mean_nonneg)
qed

theorem compute_stats_invariants_witness:
  "rounding id \<and> length [1, 3, 5 :: 64 word] < 2 ^ 64 \<and>
   sum_list (map unat [1, 3, 5 :: 64 word]) < 2 ^ 64 \<and>
   unat (sample_count (compute_stats id id [1, 3, 5])) = 9 \<and>
   unat (bucket_count (compute_stats id id [1, 3, 5])) = 3 \<and>
   0 \<le> uniformity_pct (compute_stats id id [1, 3, 5]) \<and>
   uniformity_pct (compute_stats id id [1, 3, 5]) \<le> 100 \<and>
   0 \<le> stddev (compute_stats id id [1, 3, 5]) \<and>
   0 \<le> chi2 (compute_stats id id [1, 3, 5])"
proof -
  have len: "length [1, 3, 5 :: 64 word] < 2 ^ 64" by simp
  show ?thesis
    using compute_stats_invariants [OF rounding_id rounding_id len]
    by (simp add: rounding_id)
qed

text \<open>A histogram built by \<open>distribution\<close> never reaches the wrap-around: its sample
  count is the number of addresses.\<close>

lemma sample_count_of_distribution:
  assumes "length ips < 2 ^ 64"
  shows "unat (sample_count (compute_stats rd rl (distribution cfg ips))) = length ips"
proof -
  have "unat (sample_count (compute_stats rd rl (distribution cfg ips))) =
        sum_list (map unat (distribution cfg ips)) mod 2 ^ 64"
    by (simp only: sample_count_eq unat_sum_list)
  also have "\<dots> = length ips mod 2 ^ 64"
    by (simp only: sum_list_distribution [OF assms])
  also have "\<dots> = length ips"
    using assms by (rule mod_less)
  finally show ?thesis .
qed

text \<open>
  Claim C4, as stated, fails where the sum of the counts passes \<open>2 ^ 64\<close>: for the
  histogram \<open>[2 ^ 63, 2 ^ 63]\<close> the sum is \<open>2 ^ 64\<close> and \<open>sample_count\<close> is \<open>0\<close>.
\<close>

theorem sample_count_wraps:
  "sample_count (compute_stats id id [0x8000000000000000, 0x8000000000000000]) = 0 \<and>
   sum_list (map unat [0x8000000000000000, 0x8000000000000000 :: 64 word]) = 2 ^ 64"
  by (simp add: compute_stats_def Let_def)

text \<open>
  Claim C6. For every histogram whose length is zero or whose counts sum to zero,
  \<open>compute_stats\<close> returns \<open>sample_count = 0\<close>, \<open>bucket_count\<close> the length of the
  histogram, and mean, stddev, chi2 and uniformity all zero. It is a value of the
  result type for every rounding: nothing is raised.
\<close>

theorem compute_stats_degenerate_zero:
  assumes len: "length h < 2 ^ 64"
    and deg: "h = [] \<or> sum_list (map unat h) = 0"
  shows "sample_count (compute_stats rd rl h) = 0 \<and>
         unat (bucket_count (compute_stats rd rl h)) = length h \<and>
         mean (compute_stats rd rl h) = 0 \<and>
         stddev (compute_stats rd rl h) = 0 \<and>
         chi2 (compute_stats rd rl h) = 0 \<and>
         uniformity_pct (compute_stats rd rl h) = 0"
proof -
  from deg have z: "sum_list h = 0"
    by (auto simp add: sum_list_unat_zero)
  then have "compute_stats rd rl h =
     \<lparr>sample_count = sum_list h, bucket_count = of_nat (length h),
      mean = 0, stddev = 0, chi2 = 0, uniformity_pct = 0\<rparr>"
    by (intro compute_stats_degenerate disjI2)
  with z len show ?thesis by (simp add: unat_length)
qed

theorem compute_stats_degenerate_zero_witness:
  "length [0, 0, 0 :: 64 word] < 2 ^ 64 \<and>
   sum_list (map unat [0, 0, 0 :: 64 word]) = 0 \<and>
   sample_count (compute_stats id id [0, 0, 0]) = 0 \<and>
   unat (bucket_count (compute_stats id id [0, 0, 0])) = 3 \<and>
   mean (compute_stats id id [0, 0, 0]) = 0 \<and>
   stddev (compute_stats id id [0, 0, 0]) = 0 \<and>
   chi2 (compute_stats id id [0, 0, 0]) = 0 \<and>
   uniformity_pct (compute_stats id id [0, 0, 0]) = 0"
proof -
  have len: "length [0, 0, 0 :: 64 word] < 2 ^ 64" by simp
  have deg: "[0, 0, 0 :: 64 word] = [] \<or> sum_list (map unat [0, 0, 0 :: 64 word]) = 0" by simp
  show ?thesis
    using compute_stats_degenerate_zero [OF len deg, of id id]
    by simp
qed

section \<open>The uniformity formula\<close>

text \<open>
  Claim C5, as amended. For every non-empty histogram (a vector, so shorter than
  \<open>2 ^ 64\<close>) whose sample count, the sum of the counts modulo \<open>2 ^ 64\<close>, is not zero,
  the uniformity that \<open>compute_stats\<close> returns is the one of the specification's
  formula at the mean it returns: the largest deviation of the maximum and the minimum
  count from the mean, the fraction \<open>1 - max_dev / mean\<close> clamped to \<open>[0, 1]\<close>, times
  \<open>100\<close>. The code finds the extremes by a scan and clamps by two tests in sequence;
  the formula takes the maximum and minimum of the set of counts and clamps with
  \<open>max\<close> and \<open>min\<close>.
\<close>

theorem uniformity_formula:
  assumes rd: "rounding rd"
    and ne: "h \<noteq> []" and len: "length h < 2 ^ 64"
    and n: "sum_list (map unat h) mod 2 ^ 64 \<noteq> 0"
  shows "uniformity_spec rd h (mean (compute_stats rd rl h)) =
           Some (uniformity_pct (compute_stats rd rl h))"
proof -
  let ?m = "of_nat (length h) :: 64 word"
  let ?mu = "mean_block rd (sum_list h) ?m"
  have m: "?m \<noteq> 0" using ne len by (rule length_nonzero_word)
  have "unat (sum_list h) \<noteq> 0" using n by (simp only: unat_sum_list simp_thms)
  then have s: "sum_list h \<noteq> 0" by (simp only: unat_eq_0 simp_thms)
  have mu: "0 < ?mu" using rd s m by (rule mean_positive)
  have reg: "mean (compute_stats rd rl h) = ?mu"
    "uniformity_pct (compute_stats rd rl h) = uniformity_block rd ?mu (Min (set h)) (Max (set h))"
    by (simp_all add: compute_stats_regular [OF m s])
  show ?thesis
    using mu by (simp add: reg uniformity_spec_def uniformity_block_def Let_def clamp01_def
        max_def min_def)
qed

theorem uniformity_formula_witness:
  "rounding id \<and> [1, 3, 5 :: 64 word] \<noteq> [] \<and> length [1, 3, 5 :: 64 word] < 2 ^ 64 \<and>
   sum_list (map unat [1, 3, 5 :: 64 word]) mod 2 ^ 64 \<noteq> 0 \<and>
   uniformity_spec id [1, 3, 5] (mean (compute_stats id id [1, 3, 5])) =
     Some (uniformity_pct (compute_stats id id [1, 3, 5]))"
proof -
  have ne: "[1, 3, 5 :: 64 word] \<noteq> []" by simp
  have len: "length [1, 3, 5 :: 64 word] < 2 ^ 64" by simp
  have n: "sum_list (map unat [1, 3, 5 :: 64 word]) mod 2 ^ 64 \<noteq> 0" by simp
  show ?thesis
    using uniformity_formula [OF rounding_id ne len n, of id] ne len n
    by (simp add: rounding_id)
qed

text \<open>
  Claim C5, as stated, fails where the sum of the counts is not zero but a multiple of
  \<open>2 ^ 64\<close>: the histogram \<open>[2 ^ 63, 2 ^ 63]\<close> has a nonzero length and a nonzero
  total, \<open>compute_stats\<close> takes the early return and gives the uniformity \<open>0\<close>, and
  the formula gives \<open>100\<close>.
\<close>

theorem wrapped_total_skips_formula:
  "[0x8000000000000000, 0x8000000000000000 :: 64 word] \<noteq> [] \<and>
   sum_list (map unat [0x8000000000000000, 0x8000000000000000 :: 64 word]) \<noteq> 0 \<and>
   uniformity_pct (compute_stats id id [0x8000000000000000, 0x8000000000000000]) = 0 \<and>
   uniformity_spec id [0x8000000000000000, 0x8000000000000000]
     (mean (compute_stats id id [0x8000000000000000, 0x8000000000000000])) = Some 100"
  by (simp add: compute_stats_def uniformity_spec_def Let_def)

text \<open>
  Claim C10. For every histogram (a vector, so shorter than \<open>2 ^ 64\<close>) with at least
  two buckets, a positive sum of counts and at least one count that is zero,
  \<open>compute_stats\<close> returns the uniformity \<open>0\<close>, exactly, whatever the rounding.
\<close>

theorem empty_bucket_uniformity_zero:
  assumes rd: "rounding rd"
    and len: "length h < 2 ^ 64" and two: "2 \<le> length h"
    and pos: "0 < sum_list (map unat h)"
    and zero: "0 \<in> set h"
  shows "uniformity_pct (compute_stats rd rl h) = 0"
proof (cases "sum_list h = 0")
  case True
  then show ?thesis by (simp add: compute_stats_degenerate)
next
  case False
  from two have "h \<noteq> []" by auto
  then have m: "of_nat (length h) \<noteq> (0 :: 64 word)" using len by (rule length_nonzero_word)
  let ?mu = "mean_block rd (sum_list h) (of_nat (length h))"
  have mu: "0 < ?mu" using rd False m by (rule mean_positive)
  have "uniformity_pct (compute_stats rd rl h) =
        uniformity_block rd ?mu (Min (set h)) (Max (set h))"
    by (simp add: compute_stats_regular [OF m False])
  also have "\<dots> = uniformity_block rd ?mu 0 (Max (set h))"
    by (simp only: Min_zero [OF zero])
  also have "\<dots> = 0"
    using rd mu mean_block_fixed [OF rd] by (rule uniformity_block_zero_min)
  finally show ?thesis .
qed

theorem empty_bucket_uniformity_zero_witness:
  "rounding id \<and> length [4, 0, 7 :: 64 word] < 2 ^ 64 \<and> 2 \<le> length [4, 0, 7 :: 64 word] \<and>
   0 < sum_list (map unat [4, 0, 7 :: 64 word]) \<and> 0 \<in> set [4, 0, 7 :: 64 word] \<and>
   uniformity_pct (compute_stats id id [4, 0, 7]) = 0"
proof -
  have len: "length [4, 0, 7 :: 64 word] < 2 ^ 64" by simp
  have two: "2 \<le> length [4, 0, 7 :: 64 word]" by simp
  have pos: "0 < sum_list (map unat [4, 0, 7 :: 64 word])" by simp
  have zero: "0 \<in> set [4, 0, 7 :: 64 word]" by simp
  show ?thesis
    using empty_bucket_uniformity_zero [OF rounding_id len two pos zero, of id]
    by (simp add: rounding_id)
qed

section \<open>The identity-like scenario\<close>

text \<open>With \<open>a = 1\<close>, \<open>b = 0\<close>, \<open>k = 4\<close> the bucket of \<open>x\<close> is \<open>x\<close> shifted right by
  \<open>28\<close> bits: every address below \<open>2 ^ 28\<close> falls into bucket \<open>0\<close>.\<close>

lemma identity_histogram:
  "distribution_range identity_cfg 0 128 = [128, 0, 0, 0, 0, 0, 0, 0, 0, 0, 0, 0, 0, 0, 0, 0]"
  by code_simp

lemma stats_of_skewed:
  assumes rd: "rounding rd" and rl: "rounding rl"
  shows "compute_stats rd rl [128, 0, 0, 0, 0, 0, 0, 0, 0, 0, 0, 0, 0, 0, 0, 0] =
     \<lparr>sample_count = 128, bucket_count = 16, mean = 8, stddev = rd (sqrt 960),
      chi2 = 1920, uniformity_pct = 0\<rparr>"
  by (simp add: compute_stats_def mean_block_def stddev_block_def chi2_block_def
      acc_step_def chi_step_def uniformity_block_def Let_def
      rounding_evals [OF rd] rounding_evals [OF rl])

text \<open>The statistics of the scenario's expected histogram, sixteen buckets of eight
  (scenario 3 of the specification): here the values of the claim are exact.\<close>

lemma stats_of_uniform:
  assumes rd: "rounding rd" and rl: "rounding rl"
  shows "compute_stats rd rl [8, 8, 8, 8, 8, 8, 8, 8, 8, 8, 8, 8, 8, 8, 8, 8] =
     \<lparr>sample_count = 128, bucket_count = 16, mean = 8, stddev = 0,
      chi2 = 0, uniformity_pct = 100\<rparr>"
  by (simp add: compute_stats_def mean_block_def stddev_block_def chi2_block_def
      acc_step_def chi_step_def uniformity_block_def Let_def
      rounding_evals [OF rd] rounding_evals [OF rl])

lemma sqrt_960_bounds:
  assumes rd: "rounding rd"
  shows "30 \<le> rd (sqrt 960) \<and> rd (sqrt 960) \<le> 31"
proof -
  have "30 \<le> sqrt 960" by (rule real_le_rsqrt) simp
  then have "rd 30 \<le> rd (sqrt 960)" by (rule rounding_mono [OF rd])
  moreover have "sqrt 960 \<le> 31" by (rule real_le_lsqrt) simp_all
  then have "rd (sqrt 960) \<le> rd 31" by (rule rounding_mono [OF rd])
  ultimately show ?thesis using rd by (simp add: rounding_numeral)
qed

text \<open>
  Claim C2, as amended. With multiplier \<open>1\<close>, offset \<open>0\<close> and \<open>k = 4\<close>, the
  distribution over \<open>[0, 128)\<close> is the histogram with \<open>128\<close> in bucket \<open>0\<close> and \<open>0\<close>
  in the other fifteen buckets, and \<open>compute_stats\<close> on it gives
  \<open>sample_count = 128\<close>, \<open>bucket_count = 16\<close>, \<open>mean = 8\<close>, \<open>stddev\<close> the rounded
  square root of \<open>960\<close> (between \<open>30\<close> and \<open>31\<close>), \<open>chi2 = 1920\<close> and uniformity \<open>0\<close>.
\<close>

theorem identity_scenario_stats:
  assumes rd: "rounding rd" and rl: "rounding rl"
  shows "distribution_range identity_cfg 0 128 =
           [128, 0, 0, 0, 0, 0, 0, 0, 0, 0, 0, 0, 0, 0, 0, 0] \<and>
         compute_stats rd rl (distribution_range identity_cfg 0 128) =
           \<lparr>sample_count = 128, bucket_count = 16, mean = 8, stddev = rd (sqrt 960),
            chi2 = 1920, uniformity_pct = 0\<rparr> \<and>
         30 \<le> rd (sqrt 960) \<and> rd (sqrt 960) \<le> 31"
  using sqrt_960_bounds [OF rd]
  by (simp only: identity_histogram stats_of_skewed [OF rd rl])

theorem identity_scenario_stats_witness:
  "rounding id \<and>
   distribution_range identity_cfg 0 128 = [128, 0, 0, 0, 0, 0, 0, 0, 0, 0, 0, 0, 0, 0, 0, 0] \<and>
   compute_stats id id (distribution_range identity_cfg 0 128) =
     \<lparr>sample_count = 128, bucket_count = 16, mean = 8, stddev = sqrt 960,
      chi2 = 1920, uniformity_pct = 0\<rparr>"
  using identity_scenario_stats [OF rounding_id rounding_id] rounding_id
  unfolding id_apply by blast

text \<open>
  Claim C2, as stated, fails: the histogram of the scenario is not sixteen buckets of
  eight. Its first bucket holds all \<open>128\<close> samples.
\<close>

theorem identity_scenario_not_uniform:
  "distribution_range identity_cfg 0 128 ! 0 = 128 \<and>
   distribution_range identity_cfg 0 128 ! 1 = 0 \<and>
   distribution_range identity_cfg 0 128 \<noteq> [8, 8, 8, 8, 8, 8, 8, 8, 8, 8, 8, 8, 8, 8, 8, 8]"
  by (simp add: identity_histogram)

section \<open>What parse\_ipv4 accepts\<close>

lemma parse_loop_end:
  "getline iss CHR ''.'' = None \<Longrightarrow> parse_loop iss parts idx = Inr (parts, idx)"
  by (simp add: parse_loop.simps [of iss])

lemma parse_loop_step:
  "getline iss CHR ''.'' = Some (token, rest) \<Longrightarrow>
   parse_loop iss parts idx =
     (if 4 \<le> idx then Inl TooManyOctets
      else if token = [] then Inl EmptyOctet
      else (case stoull token of
              Inl _ \<Rightarrow> Inl InvalidOctet
            | Inr v \<Rightarrow>
                if 255 < v then Inl OctetOutOfRange
                else parse_loop rest (parts[idx := ucast v]) (Suc idx)))"
  by (simp add: parse_loop.simps [of iss])

lemmas parse_eval = parse_ipv4_def parse_loop_end parse_loop_step stoull_def isspace_def
  isdigit_def digit_value_def Let_def

text \<open>The examples of the specification (scenario 4): two well-formed addresses, and
  the four malformed inputs, which are rejected.\<close>

lemma parse_examples_accepted:
  "parse_ipv4 ''192.168.0.1'' = Inr 0xC0A80001"
  "parse_ipv4 ''10.0.0.1'' = Inr 0x0A000001"
  by (simp_all add: parse_eval)

lemma parse_examples_rejected:
  "parse_ipv4 ''1.2.3'' = Inl ExpectedFourOctets"
  "parse_ipv4 ''1.2.3.4.5'' = Inl TooManyOctets"
  "parse_ipv4 ''1.2.3.256'' = Inl OctetOutOfRange"
  "parse_ipv4 ''1.2.3.'' = Inl ExpectedFourOctets"
  "parse_ipv4 ''1..3.4'' = Inl EmptyOctet"
  "parse_ipv4 ''1.a.3.4'' = Inl InvalidOctet"
  "parse_ipv4 ''1.-1.3.4'' = Inl OctetOutOfRange"
  "parse_ipv4 [] = Inl ExpectedFourOctets"
  by (simp_all add: parse_eval)

text \<open>Other inputs with a token that is not made of decimal digits only, or with an
  empty last token, are accepted: a sign, leading white space, and a dot after the
  fourth octet.\<close>

lemma parse_examples_lenient:
  "parse_ipv4 ''1.2.3.4.'' = Inr 0x01020304"
  "parse_ipv4 ''+1.2.3.4'' = Inr 0x01020304"
  "parse_ipv4 ''1. 2.3.4'' = Inr 0x01020304"
  "parse_ipv4 ''1.-0.3.4'' = Inr 0x01000304"
  by (simp_all add: parse_eval)

text \<open>
  Claim C8 says that \<open>parse_ipv4\<close> rejects every input with a token that is not
  composed solely of decimal digits. The code does not: \<^verbatim>\<open>std::stoull\<close> stops at the
  first character that is not a digit and the rest of the token is never looked at, so
  \<open>1.2.3.4x\<close> parses to \<open>0x01020304\<close>.
\<close>

theorem parse_ipv4_accepts_trailing_characters:
  "parse_ipv4 ''1.2.3.4x'' = Inr 0x01020304"
  by (simp add: parse_eval)

end
